theory Spec2Isabelle
  imports Main "HOL-Library.Word"
begin

section \<open>Values of the game\<close>

text \<open>
  The program is a single React component (\<^verbatim>\<open>src/App.jsx\<close>).  A player mark is one of
  the strings \<^verbatim>\<open>"X"\<close> and \<^verbatim>\<open>"O"\<close>.  An array slot of the board holds \<^verbatim>\<open>null\<close>, a mark,
  or, once a write past the end has stretched the array, nothing at all (a hole, which
  reads as \<^verbatim>\<open>undefined\<close>).
\<close>

datatype mark = MarkX | MarkO

datatype cell = Null | Undefined | Hole | Mark mark

text \<open>
  JavaScript strings are sequences of 16-bit code units.  \<open>str\<close> embeds an ASCII literal.
\<close>

type_synonym jsstring = "16 word list"

definition str :: "string \<Rightarrow> jsstring" where
  "str s = map (\<lambda>c. of_nat (of_char c)) s"

fun mark_str :: "mark \<Rightarrow> jsstring" where
  "mark_str MarkX = str ''X''"
| "mark_str MarkO = str ''O''"

text \<open>What a template literal prints for a value read from the board.\<close>

fun cell_str :: "cell \<Rightarrow> jsstring" where
  "cell_str Null = str ''null''"
| "cell_str Undefined = str ''undefined''"
| "cell_str Hole = str ''undefined''"
| "cell_str (Mark m) = mark_str m"

text \<open>Truthiness: \<^verbatim>\<open>null\<close> and \<^verbatim>\<open>undefined\<close> are falsy, the non-empty strings are truthy.\<close>

fun truthy :: "cell \<Rightarrow> bool" where
  "truthy (Mark m) = True"
| "truthy Null = False"
| "truthy Undefined = False"
| "truthy Hole = False"

subsection \<open>Array primitives\<close>

text \<open>
  \<^verbatim>\<open>arr[i]\<close> for an array index \<open>i\<close>: a hole and a position past the end both read as
  \<^verbatim>\<open>undefined\<close>.  Indices are the non-negative integers the component produces
  (\<^verbatim>\<open>board.map\<close> positions and \<^verbatim>\<open>selectedIndex\<close>).
\<close>

definition jsget :: "cell list \<Rightarrow> nat \<Rightarrow> cell" where
  "jsget arr i =
     (if i < length arr then (case arr ! i of Hole \<Rightarrow> Undefined | c \<Rightarrow> c) else Undefined)"

text \<open>\<^verbatim>\<open>[...arr]\<close>: a fresh array of the values read at every position.\<close>

definition spread :: "cell list \<Rightarrow> cell list" where
  "spread arr = map (\<lambda>c. case c of Hole \<Rightarrow> Undefined | _ \<Rightarrow> c) arr"

text \<open>
  \<^verbatim>\<open>arr[i] = v\<close>: inside the array the slot is overwritten; past the end the array grows
  to length \<open>i + 1\<close>, the slots in between being holes.
\<close>

definition jsset :: "cell list \<Rightarrow> nat \<Rightarrow> cell \<Rightarrow> cell list" where
  "jsset arr i v =
     (if i < length arr then arr[i := v]
      else arr @ replicate (i - length arr) Hole @ [v])"

text \<open>\<^verbatim>\<open>arr.every(Boolean)\<close>: the callback is not called on holes.\<close>

definition every_Boolean :: "cell list \<Rightarrow> bool" where
  "every_Boolean arr = list_all truthy (filter (\<lambda>c. c \<noteq> Hole) arr)"

section \<open>Winning lines, winner and status\<close>

definition WINNING_LINES :: "(nat \<times> nat \<times> nat) list" where
  "WINNING_LINES =
     [(0, 1, 2),
      (3, 4, 5),
      (6, 7, 8),
      (0, 3, 6),
      (1, 4, 7),
      (2, 5, 8),
      (0, 4, 8),
      (2, 4, 6)]"

definition emptyBoard :: "cell list" where
  "emptyBoard = replicate 9 Null"

text \<open>
  The test of one line in \<^verbatim>\<open>getWinner\<close>:
  \<^verbatim>\<open>board[a] && board[a] === board[b] && board[a] === board[c]\<close>.
\<close>

definition line_complete :: "cell list \<Rightarrow> nat \<times> nat \<times> nat \<Rightarrow> bool" where
  "line_complete b l =
     (case l of (a, b', c) \<Rightarrow>
        truthy (jsget b a) \<and> jsget b a = jsget b b' \<and> jsget b a = jsget b c)"

text \<open>The \<^verbatim>\<open>for ... of\<close> loop of \<^verbatim>\<open>getWinner\<close>, returning from inside at the first hit.\<close>

fun getWinner_loop :: "(nat \<times> nat \<times> nat) list \<Rightarrow> cell list \<Rightarrow> cell" where
  "getWinner_loop [] b = Null"
| "getWinner_loop (l # rest) b =
     (if line_complete b l then jsget b (fst l) else getWinner_loop rest b)"

definition getWinner :: "cell list \<Rightarrow> cell" where
  "getWinner b = getWinner_loop WINNING_LINES b"

definition getStatus :: "cell list \<Rightarrow> jsstring \<Rightarrow> jsstring" where
  "getStatus b np =
     (let winner = getWinner b in
      if truthy winner then str ''Winner: '' @ cell_str winner
      else if every_Boolean b then str ''Draw!''
      else str ''Next player: '' @ np)"

section \<open>Strings of the name form\<close>

text \<open>
  \<^verbatim>\<open>String.prototype.trim\<close> strips the ECMAScript white space and line terminator code
  units from both ends: TAB, LF, VT, FF, CR, SPACE, NBSP, U+1680, U+2000 to U+200A,
  U+2028, U+2029, U+202F, U+205F, U+3000 and U+FEFF.
\<close>

definition isWhiteSpace :: "16 word \<Rightarrow> bool" where
  "isWhiteSpace c =
     (c \<in> set [0x0009, 0x000A, 0x000B, 0x000C, 0x000D, 0x0020, 0x00A0, 0x1680,
               0x2028, 0x2029, 0x202F, 0x205F, 0x3000, 0xFEFF]
      \<or> (0x2000 \<le> c \<and> c \<le> 0x200A))"

definition trim :: "jsstring \<Rightarrow> jsstring" where
  "trim s = rev (dropWhile isWhiteSpace (rev (dropWhile isWhiteSpace s)))"

text \<open>\<^verbatim>\<open>a || b\<close> on strings: the empty string is the only falsy one.\<close>

definition or_else :: "jsstring \<Rightarrow> jsstring \<Rightarrow> jsstring" where
  "or_else a d = (if a \<noteq> [] then a else d)"

record names =
  nameX :: jsstring
  nameO :: jsstring

definition defaultNames :: names where
  "defaultNames = \<lparr>nameX = str ''Player 1'', nameO = str ''Player 2''\<rparr>"

text \<open>Property access \<^verbatim>\<open>players[nextPlayer]\<close>.\<close>

fun name_of :: "names \<Rightarrow> mark \<Rightarrow> jsstring" where
  "name_of p MarkX = nameX p"
| "name_of p MarkO = nameO p"

section \<open>The component state and its handlers\<close>

text \<open>
  The \<^verbatim>\<open>useState\<close> cells of \<^verbatim>\<open>App\<close>.  Every handler runs on the values of the current
  render and its setters take effect together before the next event, so a handler is a
  function from state to state.
\<close>

record app =
  board :: "cell list"
  nextPlayer :: mark
  isStarted :: bool
  players :: names
  nameInputs :: names
  isNameEditorOpen :: bool
  selectedIndex :: nat

definition initial :: app where
  "initial =
     \<lparr>board = emptyBoard, nextPlayer = MarkX, isStarted = False, players = defaultNames,
      nameInputs = \<lparr>nameX = nameX defaultNames, nameO = nameO defaultNames\<rparr>,
      isNameEditorOpen = False, selectedIndex = 0\<rparr>"

text \<open>The memoised values derived from the state.\<close>

definition winner :: "app \<Rightarrow> cell" where
  "winner s = getWinner (board s)"

definition isDraw :: "app \<Rightarrow> bool" where
  "isDraw s = (every_Boolean (board s) \<and> \<not> truthy (winner s))"

definition status :: "app \<Rightarrow> jsstring" where
  "status s =
     (let displayNext = or_else (name_of (players s) (nextPlayer s)) (mark_str (nextPlayer s))
      in getStatus (board s) displayNext)"

text \<open>The updater \<^verbatim>\<open>(current) => (current === "X" ? "O" : "X")\<close>.\<close>

definition toggle :: "mark \<Rightarrow> mark" where
  "toggle current = (if current = MarkX then MarkO else MarkX)"

definition handleSquareClick :: "nat \<Rightarrow> app \<Rightarrow> app" where
  "handleSquareClick index s =
     (if truthy (jsget (board s) index) \<or> truthy (winner s) then s
      else s\<lparr>board := jsset (spread (board s)) index (Mark (nextPlayer s)),
              nextPlayer := toggle (nextPlayer s)\<rparr>)"

definition handleReset :: "app \<Rightarrow> app" where
  "handleReset s = s\<lparr>board := emptyBoard, nextPlayer := MarkX, selectedIndex := 0\<rparr>"

definition handleStartDefault :: "app \<Rightarrow> app" where
  "handleStartDefault s =
     s\<lparr>players := defaultNames, nameInputs := defaultNames, isStarted := True,
       isNameEditorOpen := False\<rparr>"

definition handleStartWithNames :: "app \<Rightarrow> app" where
  "handleStartWithNames s =
     (let trimmed =
            \<lparr>nameX = or_else (trim (nameX (nameInputs s))) (nameX defaultNames),
             nameO = or_else (trim (nameO (nameInputs s))) (nameO defaultNames)\<rparr>
      in s\<lparr>players := trimmed, isStarted := True, isNameEditorOpen := False\<rparr>)"

definition handleEndGame :: "app \<Rightarrow> app" where
  "handleEndGame s =
     s\<lparr>isStarted := False, board := emptyBoard, nextPlayer := MarkX,
       isNameEditorOpen := False, selectedIndex := 0\<rparr>"

text \<open>
  \<^verbatim>\<open>(current + delta + 9) % 9\<close>.  The component calls it with \<open>delta\<close> among \<open>-3, 3, -1, 1\<close>,
  where the dividend is not negative and \<^verbatim>\<open>%\<close> is \<open>mod\<close>.
\<close>

definition moveSelection :: "int \<Rightarrow> app \<Rightarrow> app" where
  "moveSelection delta s =
     s\<lparr>selectedIndex := nat ((int (selectedIndex s) + delta + 9) mod 9)\<rparr>"

datatype key = ArrowUp | ArrowDown | ArrowLeft | ArrowRight | Home | End | Enter | Space | OtherKey

text \<open>
  \<^verbatim>\<open>handleBoardKeyDown\<close>; \<open>inField\<close> says that the focused element is an input or a
  textarea.
\<close>

definition handleBoardKeyDown :: "key \<Rightarrow> bool \<Rightarrow> app \<Rightarrow> app" where
  "handleBoardKeyDown k inField s =
     (if \<not> isStarted s then s
      else if inField then s
      else (case k of
              ArrowUp \<Rightarrow> moveSelection (- 3) s
            | ArrowDown \<Rightarrow> moveSelection 3 s
            | ArrowLeft \<Rightarrow> moveSelection (- 1) s
            | ArrowRight \<Rightarrow> moveSelection 1 s
            | Home \<Rightarrow> s\<lparr>selectedIndex := 0\<rparr>
            | End \<Rightarrow> s\<lparr>selectedIndex := 8\<rparr>
            | Enter \<Rightarrow> handleSquareClick (selectedIndex s) s
            | Space \<Rightarrow> handleSquareClick (selectedIndex s) s
            | OtherKey \<Rightarrow> s))"

subsection \<open>Events of the user interface\<close>

text \<open>
  What the rendered page lets the user do.  The squares exist only in the game view, one
  per position of \<^verbatim>\<open>board.map\<close>; the start buttons and the name form only in the start
  view; the key listener is installed only while the game is started.
\<close>

datatype event =
    Click nat
  | KeyDown key bool
  | Reset
  | EndGame
  | StartDefault
  | StartWithNames
  | ToggleNameEditor
  | EditNameX jsstring
  | EditNameO jsstring

fun step :: "app \<Rightarrow> event \<Rightarrow> app" where
  "step s (Click i) =
     (if isStarted s \<and> i < length (board s) then handleSquareClick i s else s)"
| "step s (KeyDown k inField) = (if isStarted s then handleBoardKeyDown k inField s else s)"
| "step s Reset = (if isStarted s then handleReset s else s)"
| "step s EndGame = (if isStarted s then handleEndGame s else s)"
| "step s StartDefault = (if isStarted s then s else handleStartDefault s)"
| "step s StartWithNames = (if isStarted s then s else handleStartWithNames s)"
| "step s ToggleNameEditor =
     (if isStarted s then s else s\<lparr>isNameEditorOpen := \<not> isNameEditorOpen s\<rparr>)"
| "step s (EditNameX v) =
     (if isStarted s then s else s\<lparr>nameInputs := (nameInputs s)\<lparr>nameX := v\<rparr>\<rparr>)"
| "step s (EditNameO v) =
     (if isStarted s then s else s\<lparr>nameInputs := (nameInputs s)\<lparr>nameO := v\<rparr>\<rparr>)"

definition run :: "event list \<Rightarrow> app" where
  "run es = foldl step initial es"

text \<open>The moves of a game played by clicking squares, from the fresh state.\<close>

definition play :: "nat list \<Rightarrow> app" where
  "play moves = foldl (\<lambda>s i. handleSquareClick i s) initial moves"

text \<open>
  A board in the sense of the data model: 9 cells, each empty or holding a mark, none
  missing.
\<close>

definition is_board :: "cell list \<Rightarrow> bool" where
  "is_board b = (length b = 9 \<and> list_all (\<lambda>c. c \<noteq> Hole) b)"

text \<open>Line \<open>l\<close> is held by mark \<open>m\<close>: its three cells all read as \<open>m\<close>.\<close>

definition line_held :: "cell list \<Rightarrow> nat \<times> nat \<times> nat \<Rightarrow> mark \<Rightarrow> bool" where
  "line_held b l m =
     (case l of (a, b', c) \<Rightarrow>
        jsget b a = Mark m \<and> jsget b b' = Mark m \<and> jsget b c = Mark m)"

text \<open>The number of marks on a board.\<close>

definition count_marks :: "cell list \<Rightarrow> nat" where
  "count_marks b = length (filter truthy b)"

section \<open>Basic facts\<close>

lemma emptyBoard_cells: "emptyBoard = [Null, Null, Null, Null, Null, Null, Null, Null, Null]"
  by (simp add: emptyBoard_def numeral_eq_Suc)

lemma getWinner_emptyBoard: "getWinner emptyBoard = Null"
  by (simp add: getWinner_def WINNING_LINES_def emptyBoard_cells line_complete_def jsget_def)

lemma every_Boolean_emptyBoard: "\<not> every_Boolean emptyBoard"
  by (simp add: every_Boolean_def emptyBoard_cells)

lemma is_board_emptyBoard: "is_board emptyBoard"
  by (simp add: is_board_def emptyBoard_cells)

lemma count_marks_emptyBoard: "count_marks emptyBoard = 0"
  by (simp add: count_marks_def emptyBoard_def)

lemma truthy_iff: "truthy c \<longleftrightarrow> (\<exists>m. c = Mark m)"
  by (cases c) auto

lemma is_board_no_hole: "is_board b \<Longrightarrow> filter (\<lambda>c. c \<noteq> Hole) b = b"
  by (simp add: is_board_def list_all_iff)

lemma is_board_every: "is_board b \<Longrightarrow> every_Boolean b = list_all truthy b"
  by (simp add: every_Boolean_def is_board_no_hole)

lemma is_board_spread: "is_board b \<Longrightarrow> spread b = b"
  unfolding is_board_def spread_def list_all_iff
  by (intro map_idI) (auto split: cell.splits)

lemma is_board_jsget: "is_board b \<Longrightarrow> i < 9 \<Longrightarrow> jsget b i = b ! i"
  by (auto simp: is_board_def jsget_def list_all_length split: cell.splits)

section \<open>The winner\<close>

lemma line_complete_iff: "line_complete b l \<longleftrightarrow> (\<exists>m. line_held b l m)"
  by (cases l) (auto simp: line_complete_def line_held_def truthy_iff)

lemma line_held_fst: "line_held b l m \<Longrightarrow> jsget b (fst l) = Mark m"
  by (cases l) (simp add: line_held_def)

lemma line_complete_held:
  "line_complete b l \<Longrightarrow> jsget b (fst l) = Mark m \<Longrightarrow> line_held b l m"
  by (cases l) (auto simp: line_complete_def line_held_def)

lemma getWinner_Null_iff:
  "getWinner b = Null \<longleftrightarrow> (\<forall>l\<in>set WINNING_LINES. \<not> line_complete b l)"
proof -
  have "getWinner_loop ls b = Null \<longleftrightarrow> (\<forall>l\<in>set ls. \<not> line_complete b l)" for ls
    by (induction ls) (auto simp: line_complete_iff dest: line_held_fst)
  then show ?thesis by (simp add: getWinner_def)
qed

lemma getWinner_Mark_held:
  "getWinner b = Mark m \<Longrightarrow> \<exists>l\<in>set WINNING_LINES. line_held b l m"
proof -
  have "getWinner_loop ls b = Mark m \<Longrightarrow> \<exists>l\<in>set ls. line_held b l m" for ls
    by (induction ls) (auto dest: line_complete_held split: if_splits)
  then show "getWinner b = Mark m \<Longrightarrow> \<exists>l\<in>set WINNING_LINES. line_held b l m"
    by (simp add: getWinner_def)
qed

lemma getWinner_cases: "getWinner b = Null \<or> (\<exists>m. getWinner b = Mark m)"
proof -
  have "getWinner_loop ls b = Null \<or> (\<exists>m. getWinner_loop ls b = Mark m)" for ls
    by (induction ls) (auto simp: line_complete_iff dest: line_held_fst)
  then show ?thesis by (simp add: getWinner_def)
qed

text \<open>The loop answers with the first line of the list that passes the test.\<close>

lemma getWinner_first:
  assumes "i < length WINNING_LINES" "line_held b (WINNING_LINES ! i) m"
    "\<forall>j<i. \<not> line_complete b (WINNING_LINES ! j)"
  shows "getWinner b = Mark m"
proof -
  have "i < length ls \<Longrightarrow> line_held b (ls ! i) m \<Longrightarrow> \<forall>j<i. \<not> line_complete b (ls ! j)
        \<Longrightarrow> getWinner_loop ls b = Mark m" for ls
  proof (induction ls arbitrary: i)
    case Nil
    then show ?case by simp
  next
    case (Cons l ls)
    show ?case
    proof (cases i)
      case 0
      with Cons.prems show ?thesis
        by (auto simp: line_complete_iff dest: line_held_fst)
    next
      case (Suc k)
      with Cons.prems have "\<not> line_complete b l" by auto
      moreover have "\<forall>j<k. \<not> line_complete b (ls ! j)"
      proof (intro allI impI)
        fix j assume "j < k"
        then have "Suc j < i" using Suc by simp
        with Cons.prems(3) have "\<not> line_complete b ((l # ls) ! Suc j)" by blast
        then show "\<not> line_complete b (ls ! j)" by simp
      qed
      then have "getWinner_loop ls b = Mark m"
        using Cons.IH[of k] Cons.prems(1,2) Suc by simp
      ultimately show ?thesis by simp
    qed
  qed
  with assms show ?thesis by (simp add: getWinner_def)
qed

text \<open>Where only one mark holds lines, the mark of any held line is the one returned.\<close>

lemma getWinner_one_side:
  assumes "l \<in> set WINNING_LINES" "line_held b l m"
    "\<forall>l'\<in>set WINNING_LINES. \<not> line_held b l' (toggle m)"
  shows "getWinner b = Mark m"
proof -
  from assms(1,2) have "getWinner b \<noteq> Null"
    by (auto simp: getWinner_Null_iff line_complete_iff)
  then obtain m0 where m0: "getWinner b = Mark m0"
    using getWinner_cases[of b] by blast
  then obtain l0 where "l0 \<in> set WINNING_LINES" "line_held b l0 m0"
    using getWinner_Mark_held by blast
  with assms(3) have "m0 \<noteq> toggle m" by blast
  then have "m0 = m" by (cases m; cases m0) (auto simp: toggle_def)
  with m0 show ?thesis by simp
qed

text \<open>
  Claim C2.  For every array \<open>b\<close>, so for every 9-cell board: if some winning line is
  held by a mark (its three cells equal and non-empty), \<open>getWinner\<close> returns the mark
  that holds such a line; if no winning line is held by any mark, \<open>getWinner\<close> returns
  \<^verbatim>\<open>null\<close>.  Which line decides when several are held is the matter of claim C5.
\<close>

theorem getWinner_line:
  "((\<exists>l\<in>set WINNING_LINES. \<exists>m. line_held b l m) \<longrightarrow>
      (\<exists>l\<in>set WINNING_LINES. \<exists>m. line_held b l m \<and> getWinner b = Mark m)) \<and>
   ((\<forall>l\<in>set WINNING_LINES. \<forall>m. \<not> line_held b l m) \<longrightarrow> getWinner b = Null)"
proof (intro conjI impI)
  assume "\<exists>l\<in>set WINNING_LINES. \<exists>m. line_held b l m"
  then have "getWinner b \<noteq> Null"
    by (simp add: getWinner_Null_iff line_complete_iff)
  then obtain m where m: "getWinner b = Mark m"
    using getWinner_cases[of b] by blast
  then obtain l where "l \<in> set WINNING_LINES" "line_held b l m"
    using getWinner_Mark_held by blast
  with m show "\<exists>l\<in>set WINNING_LINES. \<exists>m. line_held b l m \<and> getWinner b = Mark m"
    by blast
next
  assume "\<forall>l\<in>set WINNING_LINES. \<forall>m. \<not> line_held b l m"
  then show "getWinner b = Null"
    by (simp add: getWinner_Null_iff line_complete_iff)
qed

text \<open>
  A board with the main diagonal held by X, and a board with no line held at all.
\<close>

theorem getWinner_line_witness:
  "line_held [Mark MarkX, Mark MarkO, Null, Null, Mark MarkX, Mark MarkO, Null, Null, Mark MarkX]
     (0, 4, 8) MarkX \<and>
   getWinner [Mark MarkX, Mark MarkO, Null, Null, Mark MarkX, Mark MarkO, Null, Null, Mark MarkX]
     = Mark MarkX \<and>
   getWinner [Mark MarkX, Mark MarkO, Null, Null, Null, Null, Null, Null, Null] = Null"
  using
    getWinner_line[of "[Mark MarkX, Mark MarkO, Null, Null, Mark MarkX, Mark MarkO, Null, Null, Mark MarkX]"]
    getWinner_line[of "[Mark MarkX, Mark MarkO, Null, Null, Null, Null, Null, Null, Null]"]
  by (simp add: WINNING_LINES_def line_held_def jsget_def)

text \<open>
  Claim C5.  The lines are enumerated as row 0, row 1, row 2, column 0, column 1,
  column 2, main diagonal, anti-diagonal, and on every board, however many lines are
  complete at once, \<open>getWinner\<close> returns the mark holding the first complete line of that
  enumeration: the line at position \<open>i\<close> held by \<open>m\<close>, no line at an earlier position held.
\<close>

theorem getWinner_first_line:
  "WINNING_LINES =
     [(0, 1, 2), (3, 4, 5), (6, 7, 8), (0, 3, 6), (1, 4, 7), (2, 5, 8), (0, 4, 8), (2, 4, 6)] \<and>
   (\<forall>i<length WINNING_LINES. \<forall>m.
      line_held b (WINNING_LINES ! i) m \<and>
      (\<forall>j<i. \<forall>m'. \<not> line_held b (WINNING_LINES ! j) m')
      \<longrightarrow> getWinner b = Mark m)"
  using getWinner_first[of _ b] by (simp add: WINNING_LINES_def line_complete_iff)

text \<open>
  Column 0 held by O and column 1 held by X at once: column 0 comes first, O is returned.
\<close>

theorem getWinner_first_line_witness:
  "line_held [Mark MarkO, Mark MarkX, Null, Mark MarkO, Mark MarkX, Null, Mark MarkO, Mark MarkX, Null]
     (0, 3, 6) MarkO \<and>
   line_held [Mark MarkO, Mark MarkX, Null, Mark MarkO, Mark MarkX, Null, Mark MarkO, Mark MarkX, Null]
     (1, 4, 7) MarkX \<and>
   getWinner [Mark MarkO, Mark MarkX, Null, Mark MarkO, Mark MarkX, Null, Mark MarkO, Mark MarkX, Null]
     = Mark MarkO"
proof -
  let ?b = "[Mark MarkO, Mark MarkX, Null, Mark MarkO, Mark MarkX, Null, Mark MarkO, Mark MarkX, Null]"
  have held: "line_held ?b (WINNING_LINES ! 3) MarkO"
    by (simp add: WINNING_LINES_def line_held_def jsget_def)
  have earlier: "\<forall>j<3. \<forall>m'. \<not> line_held ?b (WINNING_LINES ! j) m'"
    by (simp add: WINNING_LINES_def line_held_def jsget_def numeral_3_eq_3 less_Suc_eq)
  have "(3::nat) < length WINNING_LINES"
    by (simp add: WINNING_LINES_def)
  with held earlier have "getWinner ?b = Mark MarkO"
    using getWinner_first_line[of ?b] by blast
  then show ?thesis
    by (simp add: line_held_def jsget_def)
qed

section \<open>The status line\<close>

lemma status_strings_distinct:
  "str ''Winner: '' @ x \<noteq> str ''Draw!''"
  "str ''Next player: '' @ y \<noteq> str ''Draw!''"
  "str ''Next player: '' @ y \<noteq> str ''Winner: '' @ x"
  "str ''Winner: '' @ x \<noteq> str ''Next player: '' @ y"
  by (simp_all add: str_def)

lemma mark_str_inject: "mark_str m = mark_str m' \<longleftrightarrow> m = m'"
  by (cases m; cases m') (simp_all add: str_def)

text \<open>
  Claim C3.  On a 9-cell board \<open>getStatus\<close> reports the win of \<open>m\<close> exactly when
  \<open>getWinner\<close> returns \<open>m\<close>, whether or not the board is full; it reports a draw exactly
  when every cell holds a mark and \<open>getWinner\<close> returns \<^verbatim>\<open>null\<close>; it names the next player
  exactly in the remaining case.
\<close>

theorem getStatus_cases:
  assumes "is_board b"
  shows "(getStatus b np = str ''Winner: '' @ mark_str m \<longleftrightarrow> getWinner b = Mark m) \<and>
         (getStatus b np = str ''Draw!'' \<longleftrightarrow> list_all truthy b \<and> getWinner b = Null) \<and>
         (getStatus b np = str ''Next player: '' @ np
            \<longleftrightarrow> getWinner b = Null \<and> \<not> list_all truthy b)"
proof -
  note distinct = status_strings_distinct status_strings_distinct[symmetric]
  from getWinner_cases[of b] show ?thesis
  proof
    assume n: "getWinner b = Null"
    show ?thesis
    proof (cases "list_all truthy b")
      case True
      with n assms have "getStatus b np = str ''Draw!''"
        by (simp add: getStatus_def is_board_every)
      with n True show ?thesis by (simp add: distinct)
    next
      case False
      with n assms have "getStatus b np = str ''Next player: '' @ np"
        by (simp add: getStatus_def is_board_every)
      with n False show ?thesis by (simp add: distinct)
    qed
  next
    assume "\<exists>m0. getWinner b = Mark m0"
    then obtain m0 where w: "getWinner b = Mark m0" by blast
    then have "getStatus b np = str ''Winner: '' @ mark_str m0"
      by (simp add: getStatus_def)
    with w show ?thesis by (auto simp: distinct mark_str_inject)
  qed
qed

text \<open>A won board that is not full, a full board without a line, and an open board.\<close>

theorem getStatus_cases_witness:
  "getStatus [Mark MarkX, Mark MarkX, Mark MarkX, Mark MarkO, Mark MarkO, Null, Null, Null, Null]
     (str ''Player 2'') = str ''Winner: X'' \<and>
   getStatus [Mark MarkX, Mark MarkO, Mark MarkX, Mark MarkX, Mark MarkO, Mark MarkO,
              Mark MarkO, Mark MarkX, Mark MarkX] (str ''Player 2'') = str ''Draw!'' \<and>
   getStatus [Mark MarkX, Null, Null, Null, Null, Null, Null, Null, Null]
     (str ''Player 2'') = str ''Next player: Player 2''"
proof -
  let ?w = "[Mark MarkX, Mark MarkX, Mark MarkX, Mark MarkO, Mark MarkO, Null, Null, Null, Null]"
  let ?d = "[Mark MarkX, Mark MarkO, Mark MarkX, Mark MarkX, Mark MarkO, Mark MarkO,
              Mark MarkO, Mark MarkX, Mark MarkX]"
  let ?p = "[Mark MarkX, Null, Null, Null, Null, Null, Null, Null, Null]"
  have b: "is_board ?w" "is_board ?d" "is_board ?p"
    by (simp_all add: is_board_def)
  have w: "getWinner ?w = Mark MarkX" "getWinner ?d = Null" "getWinner ?p = Null"
    by (simp_all add: getWinner_def WINNING_LINES_def line_complete_def jsget_def)
  have "getStatus ?w (str ''Player 2'') = str ''Winner: '' @ mark_str MarkX"
    using getStatus_cases[OF b(1), of "str ''Player 2''" MarkX] w(1) by blast
  moreover have "getStatus ?d (str ''Player 2'') = str ''Draw!''"
    using getStatus_cases[OF b(2), of "str ''Player 2''"] w(2) by simp
  moreover have "getStatus ?p (str ''Player 2'') = str ''Next player: '' @ str ''Player 2''"
    using getStatus_cases[OF b(3), of "str ''Player 2''"] w(3) by simp
  ultimately show ?thesis by (simp add: str_def)
qed

section \<open>Clicking a square\<close>

text \<open>
  Claim C1, as amended.  A call of \<open>handleSquareClick\<close> changes nothing when the
  addressed cell holds a mark or when the game is won, whatever the index; and on a
  9-cell board a drawn game rejects every index from 0 to 8.  The handler has no test of
  the index itself.
\<close>

theorem illegal_move_inert:
  "(truthy (jsget (board s) i) \<longrightarrow> handleSquareClick i s = s) \<and>
   (truthy (winner s) \<longrightarrow> handleSquareClick i s = s) \<and>
   (is_board (board s) \<and> i < 9 \<and> isDraw s \<longrightarrow> handleSquareClick i s = s)"
proof (intro conjI impI)
  assume "is_board (board s) \<and> i < 9 \<and> isDraw s"
  then have b: "is_board (board s)" and i: "i < 9" and "every_Boolean (board s)"
    by (simp_all add: isDraw_def)
  then have "list_all truthy (board s)"
    by (simp add: is_board_every)
  moreover have "i < length (board s)"
    using b i by (simp add: is_board_def)
  ultimately have "truthy (board s ! i)"
    by (simp add: list_all_length)
  with b i show "handleSquareClick i s = s"
    by (simp add: handleSquareClick_def is_board_jsget)
qed (simp_all add: handleSquareClick_def)

text \<open>An occupied cell, a won game and a drawn game, each clicked once.\<close>

theorem illegal_move_inert_witness:
  "handleSquareClick 4
     (initial\<lparr>board := [Null, Null, Null, Null, Mark MarkX, Null, Null, Null, Null],
              nextPlayer := MarkO\<rparr>)
   = initial\<lparr>board := [Null, Null, Null, Null, Mark MarkX, Null, Null, Null, Null],
             nextPlayer := MarkO\<rparr> \<and>
   handleSquareClick 8
     (initial\<lparr>board := [Mark MarkX, Mark MarkX, Mark MarkX, Mark MarkO, Mark MarkO, Null, Null, Null, Null],
              nextPlayer := MarkO\<rparr>)
   = initial\<lparr>board := [Mark MarkX, Mark MarkX, Mark MarkX, Mark MarkO, Mark MarkO, Null, Null, Null, Null],
             nextPlayer := MarkO\<rparr> \<and>
   handleSquareClick 0
     (initial\<lparr>board := [Mark MarkX, Mark MarkO, Mark MarkX, Mark MarkX, Mark MarkO, Mark MarkO,
                        Mark MarkO, Mark MarkX, Mark MarkX],
              nextPlayer := MarkO\<rparr>)
   = initial\<lparr>board := [Mark MarkX, Mark MarkO, Mark MarkX, Mark MarkX, Mark MarkO, Mark MarkO,
                       Mark MarkO, Mark MarkX, Mark MarkX],
             nextPlayer := MarkO\<rparr>"
proof -
  let ?occ = "initial\<lparr>board := [Null, Null, Null, Null, Mark MarkX, Null, Null, Null, Null],
              nextPlayer := MarkO\<rparr>"
  let ?won = "initial\<lparr>board := [Mark MarkX, Mark MarkX, Mark MarkX, Mark MarkO, Mark MarkO, Null, Null, Null, Null],
              nextPlayer := MarkO\<rparr>"
  let ?draw = "initial\<lparr>board := [Mark MarkX, Mark MarkO, Mark MarkX, Mark MarkX, Mark MarkO, Mark MarkO,
                        Mark MarkO, Mark MarkX, Mark MarkX],
              nextPlayer := MarkO\<rparr>"
  have "truthy (jsget (board ?occ) 4)"
    by (simp add: jsget_def)
  then have 1: "handleSquareClick 4 ?occ = ?occ"
    using illegal_move_inert[of ?occ 4] by blast
  have "truthy (winner ?won)"
    by (simp add: winner_def getWinner_def WINNING_LINES_def line_complete_def jsget_def)
  then have 2: "handleSquareClick 8 ?won = ?won"
    using illegal_move_inert[of ?won 8] by blast
  have "is_board (board ?draw) \<and> (0::nat) < 9 \<and> isDraw ?draw"
    by (simp add: is_board_def isDraw_def every_Boolean_def winner_def getWinner_def
        WINNING_LINES_def line_complete_def jsget_def)
  then have 3: "handleSquareClick 0 ?draw = ?draw"
    using illegal_move_inert[of ?draw 0] by blast
  from 1 2 3 show ?thesis by simp
qed

text \<open>
  Claim C1 as first stated fails for an index out of range: on the fresh state index 9
  is not below 9, and the call writes the mark into a tenth slot.
\<close>

theorem illegal_move_counterexample:
  "\<not> (9::nat) < 9 \<and>
   board (handleSquareClick 9 initial) =
     [Null, Null, Null, Null, Null, Null, Null, Null, Null, Mark MarkX] \<and>
   board (handleSquareClick 9 initial) \<noteq> board initial"
  using getWinner_emptyBoard
  by (simp add: handleSquareClick_def initial_def winner_def
      emptyBoard_cells jsget_def jsset_def spread_def)

text \<open>
  Claim C4.  On a 9-cell board, for an index below 9 whose cell is empty, in a game that
  is neither won nor drawn, and for whichever mark is to move, \<open>handleSquareClick\<close>
  yields the board with that mark at the index and every other cell as before.
\<close>

theorem legal_move_effect:
  assumes "is_board (board s)" "i < 9" "\<not> truthy (jsget (board s) i)"
    "\<not> truthy (winner s)" "\<not> isDraw s"
  shows "board (handleSquareClick i s) = (board s)[i := Mark (nextPlayer s)] \<and>
         length (board (handleSquareClick i s)) = 9 \<and>
         board (handleSquareClick i s) ! i = Mark (nextPlayer s) \<and>
         (\<forall>j<9. j \<noteq> i \<longrightarrow> board (handleSquareClick i s) ! j = board s ! j)"
proof -
  have len: "length (board s) = 9" using assms(1) by (simp add: is_board_def)
  have "board (handleSquareClick i s) = (board s)[i := Mark (nextPlayer s)]"
    using assms len by (simp add: handleSquareClick_def is_board_spread jsset_def)
  with len assms(2) show ?thesis by simp
qed

theorem legal_move_effect_witness:
  "board (handleSquareClick 4 initial) =
     [Null, Null, Null, Null, Mark MarkX, Null, Null, Null, Null]"
proof -
  have "is_board (board initial)" "(4::nat) < 9" "\<not> truthy (jsget (board initial) 4)"
    "\<not> truthy (winner initial)" "\<not> isDraw initial"
    using getWinner_emptyBoard every_Boolean_emptyBoard
    by (simp_all add: initial_def is_board_def emptyBoard_cells jsget_def winner_def isDraw_def)
  from legal_move_effect[OF this] show ?thesis
    by (simp add: initial_def emptyBoard_cells)
qed

section \<open>Whose turn it is\<close>

lemma truthy_spread_cell: "truthy (case c of Hole \<Rightarrow> Undefined | _ \<Rightarrow> c) = truthy c"
  by (cases c) simp_all

lemma count_marks_spread: "count_marks (spread b) = count_marks b"
  by (induction b) (simp_all add: count_marks_def spread_def truthy_spread_cell)

lemma count_marks_update:
  "i < length xs \<Longrightarrow> \<not> truthy (xs ! i) \<Longrightarrow>
   count_marks (xs[i := Mark m]) = Suc (count_marks xs)"
proof (induction xs arbitrary: i)
  case Nil
  then show ?case by simp
next
  case (Cons x xs)
  then show ?case by (cases i) (simp_all add: count_marks_def)
qed

lemma spread_nth: "i < length b \<Longrightarrow> spread b ! i = jsget b i"
  by (auto simp: jsget_def spread_def split: cell.splits)

text \<open>A click that passes the guard puts one more mark on the board.\<close>

lemma count_marks_click:
  assumes "\<not> truthy (jsget b i)"
  shows "count_marks (jsset (spread b) i (Mark m)) = Suc (count_marks b)"
proof (cases "i < length b")
  case True
  then have "\<not> truthy (spread b ! i)" using assms by (simp add: spread_nth)
  with True have "count_marks ((spread b)[i := Mark m]) = Suc (count_marks (spread b))"
    by (intro count_marks_update) (simp_all add: spread_def)
  with True show ?thesis by (simp add: jsset_def spread_def count_marks_spread[unfolded spread_def])
next
  case False
  then have "jsset (spread b) i (Mark m) = spread b @ replicate (i - length b) Hole @ [Mark m]"
    by (simp add: jsset_def spread_def)
  moreover have "filter truthy (replicate n Hole) = []" for n
    by (induction n) simp_all
  ultimately show ?thesis
    using count_marks_spread[of b] by (simp add: count_marks_def)
qed

lemma click_changes_board:
  assumes "\<not> truthy (jsget b i)"
  shows "jsset (spread b) i (Mark m) \<noteq> b"
proof
  assume "jsset (spread b) i (Mark m) = b"
  then have "count_marks (jsset (spread b) i (Mark m)) = count_marks b" by simp
  with count_marks_click[OF assms, of m] show False by simp
qed

lemma click_board_same_iff:
  "board (handleSquareClick i s) = board s \<longleftrightarrow> handleSquareClick i s = s"
proof
  assume same: "board (handleSquareClick i s) = board s"
  show "handleSquareClick i s = s"
  proof (rule ccontr)
    assume "handleSquareClick i s \<noteq> s"
    then have g: "\<not> truthy (jsget (board s) i)"
      and b: "board (handleSquareClick i s) = jsset (spread (board s)) i (Mark (nextPlayer s))"
      by (auto simp: handleSquareClick_def split: if_splits)
    from click_changes_board[OF g, of "nextPlayer s"] b same show False by simp
  qed
qed simp

lemma toggle_parity: "(toggle p = MarkX) = (p \<noteq> MarkX)"
  by (cases p) (simp_all add: toggle_def)

lemma click_parity:
  assumes "nextPlayer s = MarkX \<longleftrightarrow> even (count_marks (board s))"
  shows "nextPlayer (handleSquareClick i s) = MarkX
           \<longleftrightarrow> even (count_marks (board (handleSquareClick i s)))"
  using assms by (simp add: handleSquareClick_def count_marks_click toggle_parity)

lemma step_parity:
  assumes "nextPlayer s = MarkX \<longleftrightarrow> even (count_marks (board s))"
  shows "nextPlayer (step s e) = MarkX \<longleftrightarrow> even (count_marks (board (step s e)))"
proof (cases e)
  case (Click i)
  then show ?thesis using assms click_parity[OF assms] by simp
next
  case (KeyDown k inField)
  then show ?thesis
    using assms click_parity[OF assms]
    by (cases k) (simp_all add: handleBoardKeyDown_def moveSelection_def)
qed (use assms in \<open>simp_all add: handleReset_def handleEndGame_def handleStartDefault_def
      handleStartWithNames_def count_marks_emptyBoard\<close>)

lemma run_snoc: "run (es @ [e]) = step (run es) e"
  by (simp add: run_def)

lemma run_parity: "nextPlayer (run es) = MarkX \<longleftrightarrow> even (count_marks (board (run es)))"
proof (induction es rule: rev_induct)
  case Nil
  then show ?case by (simp add: run_def initial_def count_marks_emptyBoard)
next
  case (snoc e es)
  then show ?case unfolding run_snoc by (rule step_parity)
qed

text \<open>
  Claim C6.  The fresh state has X to move.  In every state reached from it by events of
  the page, a call of \<open>handleSquareClick\<close> that changes the board hands the turn to the
  other mark and a call that leaves the board as it was leaves the turn as it was; and X
  is to move exactly when the board holds an even number of marks, so the marks go down
  in the order X, O, X, ...
\<close>

theorem turn_alternation:
  "nextPlayer (run []) = MarkX \<and>
   (board (handleSquareClick i (run es)) \<noteq> board (run es) \<longrightarrow>
      nextPlayer (handleSquareClick i (run es)) = toggle (nextPlayer (run es))) \<and>
   (board (handleSquareClick i (run es)) = board (run es) \<longrightarrow>
      nextPlayer (handleSquareClick i (run es)) = nextPlayer (run es)) \<and>
   (nextPlayer (run es) = MarkX \<longleftrightarrow> even (count_marks (board (run es)))) \<and>
   toggle MarkX = MarkO \<and> toggle MarkO = MarkX"
proof (intro conjI impI)
  show "nextPlayer (run []) = MarkX" by (simp add: run_def initial_def)
  show "nextPlayer (handleSquareClick i (run es)) = toggle (nextPlayer (run es))"
    if "board (handleSquareClick i (run es)) \<noteq> board (run es)"
    using that by (auto simp: handleSquareClick_def split: if_splits)
  show "nextPlayer (handleSquareClick i (run es)) = nextPlayer (run es)"
    if "board (handleSquareClick i (run es)) = board (run es)"
    using that by (simp add: click_board_same_iff)
  show "nextPlayer (run es) = MarkX \<longleftrightarrow> even (count_marks (board (run es)))"
    by (rule run_parity)
qed (simp_all add: toggle_def)

text \<open>After X has taken the centre: a click on a free corner and a click on the centre.\<close>

theorem turn_alternation_witness:
  "board (handleSquareClick 0 (run [StartDefault, Click 4])) \<noteq> board (run [StartDefault, Click 4]) \<and>
   nextPlayer (run [StartDefault, Click 4]) = MarkO \<and>
   nextPlayer (handleSquareClick 0 (run [StartDefault, Click 4])) = MarkX \<and>
   board (handleSquareClick 4 (run [StartDefault, Click 4])) = board (run [StartDefault, Click 4]) \<and>
   nextPlayer (handleSquareClick 4 (run [StartDefault, Click 4])) = MarkO"
proof -
  let ?s = "run [StartDefault, Click 4]"
  have s: "?s = initial\<lparr>isStarted := True,
                board := [Null, Null, Null, Null, Mark MarkX, Null, Null, Null, Null],
                nextPlayer := MarkO\<rparr>"
    using getWinner_emptyBoard
    by (simp add: run_def initial_def handleStartDefault_def handleSquareClick_def winner_def
        emptyBoard_cells jsget_def jsset_def spread_def toggle_def)
  have moved: "board (handleSquareClick 0 ?s) \<noteq> board ?s"
    unfolding s
    by (simp add: handleSquareClick_def winner_def getWinner_def WINNING_LINES_def
        line_complete_def jsget_def jsset_def spread_def)
  have inert: "board (handleSquareClick 4 ?s) = board ?s"
    unfolding s by (simp add: handleSquareClick_def jsget_def)
  have np: "nextPlayer ?s = MarkO" unfolding s by simp
  from moved turn_alternation[of 0 "[StartDefault, Click 4]"]
  have "nextPlayer (handleSquareClick 0 ?s) = toggle (nextPlayer ?s)" by blast
  moreover from inert turn_alternation[of 4 "[StartDefault, Click 4]"]
  have "nextPlayer (handleSquareClick 4 ?s) = nextPlayer ?s" by blast
  ultimately show ?thesis using moved inert np by (simp add: toggle_def)
qed

subsection \<open>The indices the page produces\<close>

lemma is_board_click:
  assumes "is_board b" "i < 9"
  shows "is_board (jsset (spread b) i (Mark m))"
proof -
  have "is_board (b[i := Mark m])"
    using assms by (auto simp: is_board_def list_all_iff dest: set_update_subset_insert[THEN subsetD])
  with assms show ?thesis by (simp add: is_board_spread jsset_def is_board_def)
qed

lemma handleSquareClick_board:
  "is_board (board s) \<Longrightarrow> i < 9 \<Longrightarrow> is_board (board (handleSquareClick i s))"
  by (simp add: handleSquareClick_def is_board_click)

lemma handleSquareClick_selected: "selectedIndex (handleSquareClick i s) = selectedIndex s"
  by (simp add: handleSquareClick_def)

lemma moveSelection_range: "selectedIndex (moveSelection delta s) < 9"
proof -
  have "(int (selectedIndex s) + delta + 9) mod 9 < 9"
    by (rule pos_mod_bound) simp
  then show ?thesis by (simp add: moveSelection_def)
qed

lemma moveSelection_board: "board (moveSelection delta s) = board s"
  by (simp add: moveSelection_def)

lemma step_in_range:
  assumes "is_board (board s) \<and> selectedIndex s < 9"
  shows "is_board (board (step s e)) \<and> selectedIndex (step s e) < 9"
proof (cases e)
  case (Click i)
  from assms have "i < length (board s) \<Longrightarrow> i < 9"
    by (simp add: is_board_def)
  with Click assms show ?thesis
    by (simp add: handleSquareClick_board handleSquareClick_selected)
next
  case (KeyDown k inField)
  with assms show ?thesis
    by (cases k)
      (simp_all add: handleBoardKeyDown_def moveSelection_range moveSelection_board
        handleSquareClick_board handleSquareClick_selected)
qed (use assms in \<open>simp_all add: handleReset_def handleEndGame_def handleStartDefault_def
      handleStartWithNames_def is_board_emptyBoard\<close>)

text \<open>
  Every state the page reaches holds a 9-cell board and a selection inside it, so every
  index that a click or a key press hands to \<open>handleSquareClick\<close> is below 9: the
  callers keep the index in range, the handler does not.
\<close>

lemma run_in_range: "is_board (board (run es)) \<and> selectedIndex (run es) < 9"
proof (induction es rule: rev_induct)
  case Nil
  then show ?case by (simp add: run_def initial_def is_board_emptyBoard)
next
  case (snoc e es)
  then show ?case unfolding run_snoc by (rule step_in_range)
qed

subsection \<open>Held lines on the boards of a game\<close>

lemma jsget_click_same: "jsget (jsset (spread b) i (Mark p)) i = Mark p"
  by (simp add: jsget_def jsset_def spread_def nth_append)

lemma jsget_click_other:
  assumes "j \<noteq> i"
  shows "jsget (jsset (spread b) i v) j = jsget b j"
proof (cases "i < length b")
  case True
  with assms show ?thesis
    by (auto simp: jsget_def jsset_def spread_def split: cell.splits)
next
  case False
  show ?thesis
  proof (cases "j < length b")
    case True
    with False show ?thesis
      by (auto simp: jsget_def jsset_def spread_def nth_append split: cell.splits)
  next
    case False
    note jb = this
    show ?thesis
    proof (cases "j < i")
      case True
      with jb have "j - length b < i - length b" by arith
      with True jb \<open>\<not> i < length b\<close> have "jsset (spread b) i v ! j = Hole"
        by (simp add: jsset_def spread_def nth_append)
      with True jb \<open>\<not> i < length b\<close> show ?thesis
        by (simp add: jsget_def jsset_def spread_def)
    next
      case False
      with assms jb \<open>\<not> i < length b\<close> show ?thesis
        by (simp add: jsget_def jsset_def spread_def)
    qed
  qed
qed

text \<open>After a move of \<open>p\<close> on a board without a complete line, every held line is held by \<open>p\<close>.\<close>

lemma click_lines_one_side:
  assumes none: "\<forall>l\<in>set WINNING_LINES. \<not> line_complete b l"
    and l: "l \<in> set WINNING_LINES" and held: "line_held (jsset (spread b) i (Mark p)) l m"
  shows "m = p"
proof (rule ccontr)
  assume ne: "m \<noteq> p"
  obtain a b' c where labc: "l = (a, b', c)" by (cases l)
  let ?n = "jsset (spread b) i (Mark p)"
  from held labc have r: "jsget ?n a = Mark m" "jsget ?n b' = Mark m" "jsget ?n c = Mark m"
    by (simp_all add: line_held_def)
  have "x \<noteq> i" if "jsget ?n x = Mark m" for x
    using that ne jsget_click_same[of b i p] by auto
  with r have "a \<noteq> i" "b' \<noteq> i" "c \<noteq> i" by blast+
  with r have "jsget b a = Mark m" "jsget b b' = Mark m" "jsget b c = Mark m"
    by (simp_all add: jsget_click_other)
  then have "line_held b l m" by (simp add: line_held_def labc)
  with none l show False by (auto simp: line_complete_iff)
qed

lemma click_every_line:
  assumes "\<forall>l\<in>set WINNING_LINES. \<forall>m. line_held (board s) l m \<longrightarrow> getWinner (board s) = Mark m"
  shows "\<forall>l\<in>set WINNING_LINES. \<forall>m. line_held (board (handleSquareClick i s)) l m
           \<longrightarrow> getWinner (board (handleSquareClick i s)) = Mark m"
proof (cases "truthy (jsget (board s) i) \<or> truthy (winner s)")
  case True
  with assms show ?thesis by (simp add: handleSquareClick_def)
next
  case False
  then have "getWinner (board s) = Null"
    using getWinner_cases[of "board s"] by (auto simp: winner_def)
  then have none: "\<forall>l\<in>set WINNING_LINES. \<not> line_complete (board s) l"
    by (simp add: getWinner_Null_iff)
  let ?n = "jsset (spread (board s)) i (Mark (nextPlayer s))"
  from False have b: "board (handleSquareClick i s) = ?n"
    by (simp add: handleSquareClick_def)
  have p: "m = nextPlayer s" if "l \<in> set WINNING_LINES" "line_held ?n l m" for l m
    using click_lines_one_side[OF none that] .
  have "getWinner ?n = Mark m" if l: "l \<in> set WINNING_LINES" and h: "line_held ?n l m" for l m
  proof (rule getWinner_one_side[OF l h], intro ballI notI)
    fix l' assume "l' \<in> set WINNING_LINES" "line_held ?n l' (toggle m)"
    then have "toggle m = nextPlayer s" by (rule p)
    moreover from l h have "m = nextPlayer s" by (rule p)
    ultimately show False by (cases m) (simp_all add: toggle_def)
  qed
  then show ?thesis unfolding b by blast
qed

lemma emptyBoard_no_line: "\<not> line_held emptyBoard l m"
  by (cases l) (simp add: line_held_def jsget_def emptyBoard_def)

lemma step_every_line:
  assumes "\<forall>l\<in>set WINNING_LINES. \<forall>m. line_held (board s) l m \<longrightarrow> getWinner (board s) = Mark m"
  shows "\<forall>l\<in>set WINNING_LINES. \<forall>m. line_held (board (step s e)) l m
           \<longrightarrow> getWinner (board (step s e)) = Mark m"
proof (cases e)
  case (Click i)
  then show ?thesis using assms click_every_line[OF assms, of i] by simp
next
  case (KeyDown k inField)
  then show ?thesis
    using assms click_every_line[OF assms, of "selectedIndex s"]
    by (cases k) (simp_all add: handleBoardKeyDown_def moveSelection_def)
qed (use assms in \<open>simp_all add: handleReset_def handleEndGame_def handleStartDefault_def
      handleStartWithNames_def emptyBoard_no_line\<close>)

text \<open>
  On every board the page reaches, the mark of every held line is the one returned: lines
  held by both marks at once do not arise in play.
\<close>

lemma run_every_line:
  "\<forall>l\<in>set WINNING_LINES. \<forall>m. line_held (board (run es)) l m
     \<longrightarrow> getWinner (board (run es)) = Mark m"
proof (induction es rule: rev_induct)
  case Nil
  then show ?case by (simp add: run_def initial_def emptyBoard_no_line)
next
  case (snoc e es)
  then show ?case unfolding run_snoc by (rule step_every_line)
qed


section \<open>Restart\<close>

text \<open>
  Claim C7.  Whatever the state before, \<open>handleReset\<close> leaves a board of exactly nine
  \<^verbatim>\<open>null\<close> cells and X to move; that state has no winner, is no draw, and its status line
  names the next player.
\<close>

theorem reset_fresh:
  "board (handleReset s) = [Null, Null, Null, Null, Null, Null, Null, Null, Null] \<and>
   nextPlayer (handleReset s) = MarkX \<and>
   winner (handleReset s) = Null \<and>
   \<not> isDraw (handleReset s) \<and>
   status (handleReset s) = str ''Next player: '' @ or_else (nameX (players s)) (str ''X'')"
  by (simp add: handleReset_def winner_def isDraw_def status_def getStatus_def
      getWinner_emptyBoard every_Boolean_emptyBoard emptyBoard_cells[symmetric])

text \<open>
  Claim C10.  \<open>handleReset\<close> leaves the players' names, the started flag, the name form
  and its open flag as they were: it differs from the state before in the board, the mark
  to move and the selected index only.
\<close>

theorem reset_frame:
  "players (handleReset s) = players s \<and>
   isStarted (handleReset s) = isStarted s \<and>
   nameInputs (handleReset s) = nameInputs s \<and>
   isNameEditorOpen (handleReset s) = isNameEditorOpen s \<and>
   handleReset s = s\<lparr>board := board (handleReset s), nextPlayer := nextPlayer (handleReset s),
                      selectedIndex := selectedIndex (handleReset s)\<rparr>"
  by (simp add: handleReset_def)

section \<open>The scenario of five moves\<close>

text \<open>
  Claim C8, as amended.  From the empty board the clicks on 4, 0, 8, 1, 2, the marks
  alternating from X, give the board O O X / - X - / - - X, and on that board
  \<open>getWinner\<close> returns \<^verbatim>\<open>null\<close>: no line is complete.
\<close>

theorem scenario_board:
  "board (play [4, 0, 8, 1, 2]) =
     [Mark MarkO, Mark MarkO, Mark MarkX, Null, Mark MarkX, Null, Null, Null, Mark MarkX] \<and>
   getWinner (board (play [4, 0, 8, 1, 2])) = Null"
  by (simp add: play_def handleSquareClick_def initial_def winner_def emptyBoard_cells
      getWinner_def WINNING_LINES_def line_complete_def jsget_def jsset_def spread_def toggle_def)

text \<open>Claim C8 as first stated expects X as the winner of that board.\<close>

theorem scenario_counterexample:
  "getWinner (board (play [4, 0, 8, 1, 2])) \<noteq> Mark MarkX"
  by (simp add: play_def handleSquareClick_def initial_def winner_def emptyBoard_cells
      getWinner_def WINNING_LINES_def line_complete_def jsget_def jsset_def spread_def toggle_def)

section \<open>Player names\<close>

lemma trim_empty_iff: "trim s = [] \<longleftrightarrow> (\<forall>c\<in>set s. isWhiteSpace c)"
proof
  assume "trim s = []"
  then have all: "\<forall>c\<in>set (dropWhile isWhiteSpace s). isWhiteSpace c"
    by (simp add: trim_def)
  have "dropWhile isWhiteSpace s = []"
  proof (rule ccontr)
    assume ne: "dropWhile isWhiteSpace s \<noteq> []"
    then have "\<not> isWhiteSpace (hd (dropWhile isWhiteSpace s))"
      by (rule hd_dropWhile)
    moreover from ne have "hd (dropWhile isWhiteSpace s) \<in> set (dropWhile isWhiteSpace s)"
      by simp
    ultimately show False using all by blast
  qed
  then show "\<forall>c\<in>set s. isWhiteSpace c"
    by simp
next
  assume "\<forall>c\<in>set s. isWhiteSpace c"
  then have d: "dropWhile isWhiteSpace s = []"
    by simp
  show "trim s = []" unfolding trim_def d by simp
qed

text \<open>What \<open>trim\<close> cuts off at either end is white space.\<close>

lemma trim_decomposition:
  "s = takeWhile isWhiteSpace s @ trim s
         @ rev (takeWhile isWhiteSpace (rev (dropWhile isWhiteSpace s)))"
proof -
  let ?d = "dropWhile isWhiteSpace s"
  have "rev ?d = takeWhile isWhiteSpace (rev ?d) @ dropWhile isWhiteSpace (rev ?d)"
    by simp
  then have "?d = rev (dropWhile isWhiteSpace (rev ?d)) @ rev (takeWhile isWhiteSpace (rev ?d))"
    by (metis rev_append rev_rev_ident)
  then have "?d = trim s @ rev (takeWhile isWhiteSpace (rev ?d))"
    by (simp add: trim_def)
  moreover have "s = takeWhile isWhiteSpace s @ ?d" by simp
  ultimately show ?thesis by metis
qed

text \<open>What it leaves neither starts nor ends with white space.\<close>

lemma trim_ends:
  assumes "trim s \<noteq> []"
  shows "\<not> isWhiteSpace (hd (trim s)) \<and> \<not> isWhiteSpace (last (trim s))"
proof -
  let ?d = "dropWhile isWhiteSpace s"
  let ?e = "dropWhile isWhiteSpace (rev ?d)"
  from assms have e: "?e \<noteq> []" by (simp add: trim_def)
  then have "\<not> isWhiteSpace (hd ?e)" by (rule hd_dropWhile)
  then have l: "\<not> isWhiteSpace (last (trim s))"
    using e by (simp add: trim_def last_rev)
  have d: "?d \<noteq> []"
  proof
    assume "?d = []"
    then have "?e = []" by (simp only: rev.simps dropWhile.simps)
    with e show False by contradiction
  qed
  then have hd_d: "\<not> isWhiteSpace (hd ?d)" by (rule hd_dropWhile)
  have "?d = trim s @ rev (takeWhile isWhiteSpace (rev ?d))"
    by (metis trim_def rev_append rev_rev_ident takeWhile_dropWhile_id)
  then have "hd ?d = hd (trim s)" using assms by (metis hd_append2)
  with hd_d l show ?thesis by simp
qed

text \<open>
  Claim C9.  \<open>handleStartWithNames\<close> sets, for each mark, the trimmed input when the
  input has a code unit that is not white space, and otherwise the default name,
  \<^verbatim>\<open>Player 1\<close> for X and \<^verbatim>\<open>Player 2\<close> for O; an empty or all-white input takes the second
  branch.
\<close>

theorem start_with_names:
  "players (handleStartWithNames s) =
     \<lparr>nameX = (if \<exists>c\<in>set (nameX (nameInputs s)). \<not> isWhiteSpace c
               then trim (nameX (nameInputs s)) else str ''Player 1''),
      nameO = (if \<exists>c\<in>set (nameO (nameInputs s)). \<not> isWhiteSpace c
               then trim (nameO (nameInputs s)) else str ''Player 2'')\<rparr>"
  using trim_empty_iff[of "nameX (nameInputs s)"] trim_empty_iff[of "nameO (nameInputs s)"]
  by (auto simp: handleStartWithNames_def Let_def or_else_def defaultNames_def)

text \<open>A padded name for X and three spaces for O.\<close>

theorem start_with_names_witness:
  "players (handleStartWithNames
      (initial\<lparr>nameInputs := \<lparr>nameX = str ''  Ann B '', nameO = str ''   ''\<rparr>\<rparr>))
   = \<lparr>nameX = str ''Ann B'', nameO = str ''Player 2''\<rparr>"
  using start_with_names[of "initial\<lparr>nameInputs := \<lparr>nameX = str ''  Ann B '', nameO = str ''   ''\<rparr>\<rparr>"]
  by (simp add: str_def isWhiteSpace_def trim_def)

end
